theory Spec2Isabelle
  imports Complex_Main "HOL-Library.Log_Nat" "HOL-Library.Extended_Nat"
begin

text \<open>
  A shallow embedding of the coordination core of the repository: the DAG scheduler
  (\<^verbatim>\<open>quad-manager.js\<close>), the swarm manager with its topology rules, task dispatch and
  consensus vote, and two algorithms of the solver toolbox
  (\<^verbatim>\<open>strange-loops-manager.js\<close>). Mutable objects become records that are passed and
  returned, thrown errors become the left summand of a sum type, and the external
  collaborators (the language-model gateway, the JSON built-ins, clocks and random
  identifiers) are parameters of the functions that call them.
\<close>

section \<open>The model\<close>

subsection \<open>Solver toolbox: binary search\<close>

text \<open>
  \<^verbatim>\<open>binarySearch(arr, target)\<close> of the solver toolbox. The indices \<open>left\<close>, \<open>right\<close>
  and \<open>mid\<close> are integers (\<open>right\<close> starts at \<open>-1\<close> for the empty array); an array
  read outside the array yields \<open>undefined\<close> in the source, which is neither \<open>===\<close> nor
  \<open><\<close> to the target: \<open>arr_get\<close> returns \<open>None\<close> there and the loop takes the last branch.
\<close>

record search_result =
  found :: bool
  index :: int
  comparisons :: nat

definition arr_get :: "'a list \<Rightarrow> int \<Rightarrow> 'a option" where
  "arr_get arr i = (if 0 \<le> i \<and> i < int (length arr) then Some (arr ! nat i) else None)"

function binarySearch_loop :: "'a::linorder list \<Rightarrow> 'a \<Rightarrow> int \<Rightarrow> int \<Rightarrow> nat \<Rightarrow> search_result" where
  "binarySearch_loop arr target left right cmps =
     (if left \<le> right then
        (let cmps' = cmps + 1;
             mid = (left + right) div 2
         in if arr_get arr mid = Some target then
              \<lparr>found = True, index = mid, comparisons = cmps'\<rparr>
            else if (case arr_get arr mid of Some v \<Rightarrow> v < target | None \<Rightarrow> False) then
              binarySearch_loop arr target (mid + 1) right cmps'
            else
              binarySearch_loop arr target left (mid - 1) cmps')
      else \<lparr>found = False, index = - 1, comparisons = cmps\<rparr>)"
  by pat_completeness auto
termination
  by (relation "measure (\<lambda>(arr, target, left, right, cmps). nat (right - left + 1))") auto

definition binarySearch :: "'a::linorder list \<Rightarrow> 'a \<Rightarrow> search_result" where
  "binarySearch arr target = binarySearch_loop arr target 0 (int (length arr) - 1) 0"

subsection \<open>Solver toolbox: count-min sketch\<close>

text \<open>
  \<^verbatim>\<open>countMinSketch(data)\<close>. An item enters the hash through \<^verbatim>\<open>String(item)\<close>, whose
  UTF-16 code units are given by the parameter \<open>toString\<close>. Seeds and code units are
  non-negative, so \<open>h\<close> never is negative and \<^verbatim>\<open>Math.abs\<close> leaves it as it is; all
  intermediate values stay far below \<open>2 ^ 53\<close>, where the source's number arithmetic
  is exact. The object the source returns closes over the filled table: the field
  \<open>counters\<close> holds it, and \<open>query\<close> is the returned closure. \<open>\<infinity>\<close> is the source's
  \<^verbatim>\<open>Infinity\<close>.
\<close>

definition cms_width :: nat where
  "cms_width = 1000"

definition cms_depth :: nat where
  "cms_depth = 7"

definition hashSeeds :: "nat list" where
  "hashSeeds = map (\<lambda>i. i * 31) [0..<cms_depth]"

definition hash :: "('a \<Rightarrow> nat list) \<Rightarrow> 'a \<Rightarrow> nat \<Rightarrow> nat" where
  "hash toString item seed = fold (\<lambda>c h. (h * 31 + c) mod cms_width) (toString item) seed"

record cms =
  sketch :: string
  width :: nat
  depth :: nat
  counters :: "nat list list"

definition add_item :: "('a \<Rightarrow> nat list) \<Rightarrow> nat list list \<Rightarrow> 'a \<Rightarrow> nat list list" where
  "add_item toString sk item =
     fold (\<lambda>i sk. let idx = hash toString item (hashSeeds ! i)
                  in sk[i := (sk ! i)[idx := sk ! i ! idx + 1]])
          [0..<cms_depth] sk"

definition countMinSketch :: "('a \<Rightarrow> nat list) \<Rightarrow> 'a list \<Rightarrow> cms" where
  "countMinSketch toString data =
     \<lparr>sketch = ''count-min-sketch'', width = cms_width, depth = cms_depth,
      counters = fold (\<lambda>item sk. add_item toString sk item) data
                      (replicate cms_depth (replicate cms_width 0))\<rparr>"

definition query :: "('a \<Rightarrow> nat list) \<Rightarrow> cms \<Rightarrow> 'a \<Rightarrow> enat" where
  "query toString r item =
     fold (\<lambda>i m. min m (enat (counters r ! i ! hash toString item (hashSeeds ! i))))
          [0..<cms_depth] \<infinity>"

text \<open>
  Two notions used to reason about the table: the increment \<^verbatim>\<open>sketch[i][idx]++\<close> applied
  to row \<open>i\<close>, and the shape of the table (\<open>cms_depth\<close> rows of \<open>cms_width\<close> counters).
\<close>

definition bump_row :: "('a \<Rightarrow> nat list) \<Rightarrow> 'a \<Rightarrow> nat \<Rightarrow> nat list \<Rightarrow> nat list" where
  "bump_row toString item i row =
     row[hash toString item (hashSeeds ! i) := row ! hash toString item (hashSeeds ! i) + 1]"

definition shaped :: "nat list list \<Rightarrow> bool" where
  "shaped sk = (length sk = cms_depth \<and> list_all (\<lambda>row. length row = cms_width) sk)"

subsection \<open>JavaScript values, maps and errors\<close>

text \<open>
  The values that tasks, agent results and node results range over. An object is the
  finite map of its properties; numbers are taken as exact rationals. Functions are not
  values of this type: a node's handler is a field of the node.
\<close>

datatype jsval =
    JUndefined
  | JNull
  | JBool bool
  | JNum rat
  | JStr string
  | JArr "jsval list"
  | JObj "string \<Rightarrow> jsval option"

text \<open>Truthiness, as tested by \<^verbatim>\<open>||\<close>, \<^verbatim>\<open>&&\<close> and \<^verbatim>\<open>if\<close>.\<close>

fun truthy :: "jsval \<Rightarrow> bool" where
  "truthy JUndefined = False"
| "truthy JNull = False"
| "truthy (JBool b) = b"
| "truthy (JNum n) = (n \<noteq> 0)"
| "truthy (JStr s) = (s \<noteq> [])"
| "truthy (JArr xs) = True"
| "truthy (JObj m) = True"

text \<open>
  \<^verbatim>\<open>a || b\<close> on an optional field (\<open>None\<close> is \<^verbatim>\<open>undefined\<close>): the empty string and the
  number zero are falsy as well.
\<close>

definition or_str :: "string option \<Rightarrow> string \<Rightarrow> string" where
  "or_str a b = (case a of None \<Rightarrow> b | Some s \<Rightarrow> if s = [] then b else s)"

definition or_nat :: "nat option \<Rightarrow> nat \<Rightarrow> nat" where
  "or_nat a b = (case a of None \<Rightarrow> b | Some n \<Rightarrow> if n = 0 then b else n)"

definition or_rat :: "rat option \<Rightarrow> rat \<Rightarrow> rat" where
  "or_rat a b = (case a of None \<Rightarrow> b | Some n \<Rightarrow> if n = 0 then b else n)"

text \<open>
  A \<^verbatim>\<open>Map\<close> keeps its entries in insertion order, and \<^verbatim>\<open>set\<close> on a key that is present
  replaces the value where the entry stands: an association list with \<open>map_set\<close>.
  \<^verbatim>\<open>get\<close> is \<open>map_of\<close>.
\<close>

fun map_set :: "('k \<times> 'v) list \<Rightarrow> 'k \<Rightarrow> 'v \<Rightarrow> ('k \<times> 'v) list" where
  "map_set [] k v = [(k, v)]"
| "map_set ((k', v') # m) k v = (if k' = k then (k, v) # m else (k', v') # map_set m k v)"

text \<open>
  Thrown errors. The source throws plain \<^verbatim>\<open>Error\<close> objects told apart by their message;
  \<open>CyclicDependencyError\<close> is the one with the message
  \<^verbatim>\<open>DAG has circular dependencies or unreachable nodes\<close>, \<open>Thrown\<close> an error raised by a
  node handler or an external collaborator (with its message), and \<open>TypeError\<close> the
  runtime's error for a property read or a call on \<^verbatim>\<open>undefined\<close>.
\<close>

datatype error =
    SwarmNotFound string
  | SwarmAtCapacity
  | DagNotFound
  | NodeNotFound string
  | DependencyNotCompleted string
  | CyclicDependencyError
  | Thrown string
  | TypeError

subsection \<open>Swarm manager: data\<close>

text \<open>
  Agents, swarms and the manager, with the nested \<^verbatim>\<open>config\<close> and \<^verbatim>\<open>metrics\<close> objects
  flattened into fields. Topologies are the strings of \<^verbatim>\<open>SWARM_TOPOLOGIES\<close>. Events
  emitted to listeners are not modelled.
\<close>

record role =
  r_name :: string
  r_type :: "string option"
  r_capabilities :: "string list option"
  r_isCoordinator :: bool

record agent =
  a_id :: string
  a_swarmId :: string
  a_role :: string
  a_type :: string
  a_capabilities :: "string list"
  a_state :: string
  a_connections :: "string list"
  a_messageQueue :: "jsval list"
  a_messagesReceived :: nat
  a_messagesSent :: nat
  a_tasksCompleted :: nat

record swarm_spec =
  sp_id :: "string option"
  sp_name :: "string option"
  sp_topology :: "string option"
  sp_consensusProtocol :: "string option"
  sp_roles :: "role list option"
  sp_maxAgents :: "nat option"
  sp_consensusThreshold :: "rat option"
  sp_faultTolerance :: "string option"

record swarm =
  s_id :: string
  s_name :: string
  s_topology :: string
  s_consensusProtocol :: string
  s_agents :: "agent list"
  s_coordinator :: "string option"
  s_state :: string
  s_maxAgents :: nat
  s_consensusThreshold :: rat
  s_faultTolerance :: string
  s_tasksCompleted :: nat
  s_consensusReached :: nat
  s_averageResponseTime :: nat
  s_messagesExchanged :: nat
  s_createdAt :: string
  s_flowSwarmId :: "string option"

text \<open>
  The optional \<^verbatim>\<open>ruv-swarm\<close> package, when it could be imported: each of its two entry
  points may be missing, and each may fail.
\<close>

record ruv_swarm =
  rs_createSwarm :: "(swarm_spec \<Rightarrow> error + string option) option"
  rs_executeTask :: "(string \<Rightarrow> jsval \<Rightarrow> error + jsval) option"

record swarm_manager =
  cfg_maxAgents :: nat
  cfg_defaultTopology :: string
  cfg_consensusThreshold :: rat
  cfg_consensusProtocol :: string
  ruvSwarm :: "ruv_swarm option"
  swarms :: "(string \<times> swarm) list"
  m_swarmsCreated :: nat
  m_tasksExecuted :: nat
  m_consensusReached :: nat
  m_opsPerSecond :: nat

text \<open>
  What a call reads from the clock and the random generator: the identifier generated
  when the specification has none, the creation time stamp, the random suffix of the
  \<open>k\<close>-th agent created by the call, and the measured duration of a dispatch.
\<close>

record env =
  e_fresh :: string
  e_now :: string
  e_random :: "nat \<Rightarrow> string"
  e_duration :: nat

subsection \<open>Swarm manager: creation and topology\<close>

definition createSwarmAgent :: "string \<Rightarrow> role \<Rightarrow> string \<Rightarrow> agent" where
  "createSwarmAgent swarmId role suffix =
     \<lparr>a_id = swarmId @ ''-agent-'' @ suffix,
      a_swarmId = swarmId,
      a_role = r_name role,
      a_type = or_str (r_type role) ''worker'',
      a_capabilities = (case r_capabilities role of None \<Rightarrow> [] | Some cs \<Rightarrow> cs),
      a_state = ''ready'',
      a_connections = [],
      a_messageQueue = [],
      a_messagesReceived = 0,
      a_messagesSent = 0,
      a_tasksCompleted = 0\<rparr>"

text \<open>The loop over \<^verbatim>\<open>spec.roles\<close>: push the new agent, and record a coordinator role.\<close>

fun add_roles :: "env \<Rightarrow> nat \<Rightarrow> role list \<Rightarrow> swarm \<Rightarrow> swarm" where
  "add_roles e k [] sw = sw"
| "add_roles e k (role # roles) sw =
     (let agent = createSwarmAgent (s_id sw) role (e_random e k);
          sw1 = sw\<lparr>s_agents := s_agents sw @ [agent]\<rparr>;
          sw2 = (if r_isCoordinator role then sw1\<lparr>s_coordinator := Some (a_id agent)\<rparr> else sw1)
      in add_roles e (Suc k) roles sw2)"

definition createSwarm :: "env \<Rightarrow> swarm_manager \<Rightarrow> swarm_spec \<Rightarrow> error + (swarm \<times> swarm_manager)" where
  "createSwarm e mgr spec =
     (let swarmId = or_str (sp_id spec) (e_fresh e);
          swarm0 = \<lparr>s_id = swarmId,
                    s_name = or_str (sp_name spec) swarmId,
                    s_topology = or_str (sp_topology spec) (cfg_defaultTopology mgr),
                    s_consensusProtocol = or_str (sp_consensusProtocol spec) (cfg_consensusProtocol mgr),
                    s_agents = [],
                    s_coordinator = None,
                    s_state = ''idle'',
                    s_maxAgents = or_nat (sp_maxAgents spec) (cfg_maxAgents mgr),
                    s_consensusThreshold = or_rat (sp_consensusThreshold spec) (cfg_consensusThreshold mgr),
                    s_faultTolerance = or_str (sp_faultTolerance spec) ''byzantine'',
                    s_tasksCompleted = 0,
                    s_consensusReached = 0,
                    s_averageResponseTime = 0,
                    s_messagesExchanged = 0,
                    s_createdAt = e_now e,
                    s_flowSwarmId = None\<rparr>;
          swarm1 = (case sp_roles spec of None \<Rightarrow> swarm0 | Some roles \<Rightarrow> add_roles e 0 roles swarm0);
          flow = (case ruvSwarm mgr of
                    None \<Rightarrow> Inr swarm1
                  | Some pkg \<Rightarrow>
                      (case rs_createSwarm pkg of
                         None \<Rightarrow> Inr swarm1
                       | Some create \<Rightarrow>
                           (case create spec of
                              Inl err \<Rightarrow> Inl err
                            | Inr fid \<Rightarrow> Inr (swarm1\<lparr>s_flowSwarmId := fid\<rparr>))))
      in case flow of
           Inl err \<Rightarrow> Inl err
         | Inr sw \<Rightarrow>
             Inr (sw, mgr\<lparr>swarms := map_set (swarms mgr) swarmId sw,
                          m_swarmsCreated := m_swarmsCreated mgr + 1\<rparr>))"

text \<open>
  \<^verbatim>\<open>updateTopologyConnections(swarm)\<close>. Each loop assigns the \<^verbatim>\<open>connections\<close> of one agent
  after the other and reads nothing of the other agents but their \<^verbatim>\<open>id\<close>, which no
  loop changes. A topology without a \<^verbatim>\<open>case\<close> leaves the swarm as it is. In the star,
  \<open>hub\<close> is \<^verbatim>\<open>undefined\<close> only for an empty roster, where the loop body never runs.
\<close>

definition find_hub :: "swarm \<Rightarrow> agent option" where
  "find_hub sw =
     (case find (\<lambda>a. Some (a_id a) = s_coordinator sw) (s_agents sw) of
        Some a \<Rightarrow> Some a
      | None \<Rightarrow> (case s_agents sw of [] \<Rightarrow> None | a # _ \<Rightarrow> Some a))"

definition others_of :: "agent list \<Rightarrow> agent \<Rightarrow> string list" where
  "others_of agents agent = map a_id (filter (\<lambda>a. a_id a \<noteq> a_id agent) agents)"

definition tree_connections :: "agent list \<Rightarrow> nat \<Rightarrow> string list" where
  "tree_connections agents i =
     (let parent = (int i - 1) div 2;
          leftChild = 2 * i + 1;
          rightChild = 2 * i + 2
      in (if parent \<ge> 0 \<and> nat parent < length agents then [a_id (agents ! nat parent)] else []) @
         (if leftChild < length agents then [a_id (agents ! leftChild)] else []) @
         (if rightChild < length agents then [a_id (agents ! rightChild)] else []))"

definition ring_connections :: "agent list \<Rightarrow> nat \<Rightarrow> string list" where
  "ring_connections agents i =
     (let prev = nat ((int i - 1 + int (length agents)) mod int (length agents));
          next = (i + 1) mod length agents
      in [a_id (agents ! prev), a_id (agents ! next)])"

definition updateTopologyConnections :: "swarm \<Rightarrow> swarm" where
  "updateTopologyConnections sw =
     (let agents = s_agents sw in
      if s_topology sw = ''mesh'' then
        sw\<lparr>s_agents := map (\<lambda>agent. agent\<lparr>a_connections := others_of agents agent\<rparr>) agents\<rparr>
      else if s_topology sw = ''star'' then
        (case find_hub sw of
           None \<Rightarrow> sw
         | Some hub \<Rightarrow>
             sw\<lparr>s_agents :=
                  map (\<lambda>agent. if a_id agent = a_id hub
                                then agent\<lparr>a_connections := others_of agents agent\<rparr>
                                else agent\<lparr>a_connections := [a_id hub]\<rparr>) agents\<rparr>)
      else if s_topology sw = ''hierarchical'' then
        sw\<lparr>s_agents := map (\<lambda>i. (agents ! i)\<lparr>a_connections := tree_connections agents i\<rparr>)
                             [0..<length agents]\<rparr>
      else if s_topology sw = ''ring'' then
        sw\<lparr>s_agents := map (\<lambda>i. (agents ! i)\<lparr>a_connections := ring_connections agents i\<rparr>)
                             [0..<length agents]\<rparr>
      else sw)"

definition addAgent :: "env \<Rightarrow> swarm_manager \<Rightarrow> string \<Rightarrow> role \<Rightarrow> error + (agent \<times> swarm_manager)" where
  "addAgent e mgr swarmId agentSpec =
     (case map_of (swarms mgr) swarmId of
        None \<Rightarrow> Inl (SwarmNotFound swarmId)
      | Some sw \<Rightarrow>
          if length (s_agents sw) \<ge> s_maxAgents sw then Inl SwarmAtCapacity
          else
            (let agent = createSwarmAgent swarmId agentSpec (e_random e 0);
                 sw1 = updateTopologyConnections (sw\<lparr>s_agents := s_agents sw @ [agent]\<rparr>)
             in Inr (last (s_agents sw1), mgr\<lparr>swarms := map_set (swarms mgr) swarmId sw1\<rparr>)))"

subsection \<open>Swarm manager: sample inputs\<close>

text \<open>
  A manager as its constructor leaves it when no configuration is given and the
  optional package is absent, and small rosters, used to run the model on concrete
  inputs.
\<close>

definition sample_env :: env where
  "sample_env =
     \<lparr>e_fresh = ''swarm-1'', e_now = ''2024-01-01T00:00:00.000Z'',
      e_random = (\<lambda>k. if k = 0 then ''r0'' else if k = 1 then ''r1'' else ''r2''),
      e_duration = 5\<rparr>"

definition sample_manager :: swarm_manager where
  "sample_manager =
     \<lparr>cfg_maxAgents = 100, cfg_defaultTopology = ''mesh'', cfg_consensusThreshold = 7 / 10,
      cfg_consensusProtocol = ''raft'', ruvSwarm = None, swarms = [],
      m_swarmsCreated = 0, m_tasksExecuted = 0, m_consensusReached = 0, m_opsPerSecond = 0\<rparr>"

definition plain_role :: "string \<Rightarrow> role" where
  "plain_role name = \<lparr>r_name = name, r_type = None, r_capabilities = None, r_isCoordinator = False\<rparr>"

definition sample_spec :: "string \<Rightarrow> string list \<Rightarrow> swarm_spec" where
  "sample_spec topology names =
     \<lparr>sp_id = Some ''s'', sp_name = None, sp_topology = Some topology,
      sp_consensusProtocol = None, sp_roles = Some (map plain_role names),
      sp_maxAgents = None, sp_consensusThreshold = None, sp_faultTolerance = None\<rparr>"

definition sample_swarm :: "string \<Rightarrow> agent list \<Rightarrow> swarm" where
  "sample_swarm topology agents =
     \<lparr>s_id = ''s'', s_name = ''s'', s_topology = topology, s_consensusProtocol = ''raft'',
      s_agents = agents, s_coordinator = None, s_state = ''idle'', s_maxAgents = 100,
      s_consensusThreshold = 7 / 10, s_faultTolerance = ''byzantine'', s_tasksCompleted = 0,
      s_consensusReached = 0, s_averageResponseTime = 0, s_messagesExchanged = 0,
      s_createdAt = ''2024-01-01T00:00:00.000Z'', s_flowSwarmId = None\<rparr>"

subsection \<open>Consensus engine\<close>









definition firsts :: "'a list \<Rightarrow> 'a list" where
  "firsts xs = rev (remdups (rev xs))"


subsection \<open>Swarm task dispatch\<close>




















subsection \<open>DAG scheduler: data\<close>

text \<open>
  A node handler receives the inputs object and the node's configuration and either
  returns a value or throws (or rejects) with a message. Node and graph states are the
  strings of the source. Of the manager, the fields that graph construction and
  execution use are kept: the registry \<^verbatim>\<open>dags\<close>, the metrics, and the \<^verbatim>\<open>execute\<close>
  entry point of the optional \<^verbatim>\<open>@ruv/qdag\<close> package.
\<close>

type_synonym handler = "jsval \<Rightarrow> jsval \<Rightarrow> string + jsval"

record node_spec =
  ns_id :: string
  ns_name :: "string option"
  ns_type :: "string option"
  ns_handler :: "handler option"
  ns_config :: "jsval option"

record edge =
  edge_from :: string
  edge_to :: string

record dag_spec =
  ds_id :: "string option"
  ds_name :: "string option"
  ds_nodes :: "node_spec list option"
  ds_edges :: "edge list option"

record node =
  n_id :: string
  n_name :: string
  n_type :: string
  n_handler :: "handler option"
  n_config :: jsval
  n_state :: string
  n_dependencies :: "string list"
  n_dependents :: "string list"
  n_result :: jsval
  n_error :: "string option"

record dag =
  d_id :: string
  d_name :: string
  d_nodes :: "(string \<times> node) list"
  d_edges :: "edge list"
  d_state :: string
  d_results :: "(string \<times> jsval) list"
  d_createdAt :: string

record quad_manager =
  qdag_execute :: "(dag \<Rightarrow> string + jsval) option"
  dags :: "(string \<times> dag) list"
  m_dagsExecuted :: nat
  m_nodesExecuted :: nat
  m_parallelExecutions :: nat

text \<open>
  A node object held by the \<^verbatim>\<open>nodes\<close> map is changed in place: the entry of the key keeps
  its position.
\<close>

definition update_node :: "string \<Rightarrow> (node \<Rightarrow> node) \<Rightarrow> dag \<Rightarrow> dag" where
  "update_node k f g = g\<lparr>d_nodes := map (\<lambda>(k', n). if k' = k then (k', f n) else (k', n)) (d_nodes g)\<rparr>"

subsection \<open>DAG scheduler: construction\<close>

definition new_node :: "node_spec \<Rightarrow> node" where
  "new_node nd =
     \<lparr>n_id = ns_id nd,
      n_name = or_str (ns_name nd) (ns_id nd),
      n_type = or_str (ns_type nd) ''task'',
      n_handler = ns_handler nd,
      n_config = (case ns_config nd of
                    None \<Rightarrow> JObj Map.empty
                  | Some c \<Rightarrow> if truthy c then c else JObj Map.empty),
      n_state = ''pending'',
      n_dependencies = [],
      n_dependents = [],
      n_result = JNull,
      n_error = None\<rparr>"

definition add_node :: "node_spec \<Rightarrow> dag \<Rightarrow> dag" where
  "add_node nd g = g\<lparr>d_nodes := map_set (d_nodes g) (ns_id nd) (new_node nd)\<rparr>"

text \<open>
  One round of the loop over \<^verbatim>\<open>spec.edges\<close>: the edge is pushed, and the two lists are
  extended only under the guard \<^verbatim>\<open>if (fromNode && toNode)\<close>.
\<close>

definition add_edge :: "edge \<Rightarrow> dag \<Rightarrow> dag" where
  "add_edge ed g =
     (let g1 = g\<lparr>d_edges := d_edges g @ [ed]\<rparr>
      in case (map_of (d_nodes g1) (edge_from ed), map_of (d_nodes g1) (edge_to ed)) of
           (Some fromNode, Some toNode) \<Rightarrow>
             update_node (edge_from ed) (\<lambda>n. n\<lparr>n_dependents := n_dependents n @ [edge_to ed]\<rparr>)
               (update_node (edge_to ed) (\<lambda>n. n\<lparr>n_dependencies := n_dependencies n @ [edge_from ed]\<rparr>) g1)
         | _ \<Rightarrow> g1)"

definition createDAG :: "env \<Rightarrow> quad_manager \<Rightarrow> dag_spec \<Rightarrow> dag \<times> quad_manager" where
  "createDAG e mgr spec =
     (let dagId = or_str (ds_id spec) (e_fresh e);
          g0 = \<lparr>d_id = dagId,
                d_name = or_str (ds_name spec) dagId,
                d_nodes = [],
                d_edges = [],
                d_state = ''created'',
                d_results = [],
                d_createdAt = e_now e\<rparr>;
          g1 = fold add_node (case ds_nodes spec of None \<Rightarrow> [] | Some nds \<Rightarrow> nds) g0;
          g2 = fold add_edge (case ds_edges spec of None \<Rightarrow> [] | Some eds \<Rightarrow> eds) g1
      in (g2, mgr\<lparr>dags := map_set (dags mgr) dagId g2\<rparr>))"

subsection \<open>DAG scheduler: node execution\<close>





text \<open>
  \<^verbatim>\<open>inputs[depId] = dag.results.get(depId)\<close> for each dependency: a missing result is the
  property value \<^verbatim>\<open>undefined\<close>.
\<close>

definition gather_inputs :: "dag \<Rightarrow> string list \<Rightarrow> string \<Rightarrow> jsval option" where
  "gather_inputs g deps =
     fold (\<lambda>depId inputs. inputs(depId \<mapsto> (case map_of (d_results g) depId of
                                               None \<Rightarrow> JUndefined
                                             | Some v \<Rightarrow> v)))
          deps Map.empty"



subsection \<open>DAG scheduler: sequential execution\<close>









subsection \<open>DAG scheduler: parallel waves\<close>










text \<open>
  Graphs that cannot be completed. \<open>dependency_cycle g ks\<close>: the nodes \<open>ks\<close> form a
  cycle, each depending on the next and the last on the first. \<open>never_ready g S\<close>: \<open>S\<close>
  is a non-empty collection of nodes each of which has a dependency that is in \<open>S\<close> or
  is no node of the graph. \<open>computations_succeed\<close>: no handler and no gateway call of
  the graph throws, whatever the inputs. \<open>completed_ok\<close>: the nodes of \<open>C\<close> are in state
  \<^verbatim>\<open>completed\<close>. \<open>plan\<close> is the part of the node map that an execution never changes.
\<close>

definition node_keys :: "dag \<Rightarrow> string list" where
  "node_keys g = map fst (d_nodes g)"





definition plan :: "dag \<Rightarrow> (string \<times> string list \<times> handler option \<times> string \<times> jsval) list" where
  "plan g = map (\<lambda>(k, nd). (k, n_dependencies nd, n_handler nd, n_type nd, n_config nd)) (d_nodes g)"

subsection \<open>DAG scheduler: sample inputs\<close>

definition sample_quad :: quad_manager where
  "sample_quad =
     \<lparr>qdag_execute = None, dags = [], m_dagsExecuted = 0, m_nodesExecuted = 0,
      m_parallelExecutions = 0\<rparr>"

definition plain_node :: "string \<Rightarrow> node_spec" where
  "plain_node k = \<lparr>ns_id = k, ns_name = None, ns_type = None, ns_handler = None, ns_config = None\<rparr>"



definition sample_graph :: "node_spec list \<Rightarrow> (string \<times> string) list \<Rightarrow> dag_spec" where
  "sample_graph nds eds =
     \<lparr>ds_id = Some ''g'', ds_name = None, ds_nodes = Some nds,
      ds_edges = Some (map (\<lambda>(a, b). \<lparr>edge_from = a, edge_to = b\<rparr>) eds)\<rparr>"






section \<open>Properties\<close>

subsection \<open>Binary search: comparison bound and correctness\<close>

declare binarySearch_loop.simps [simp del]

text \<open>
  One round of the loop at least halves the window \<open>right - left + 1\<close>, so a window
  smaller than \<open>2 ^ k\<close> is exhausted after at most \<open>k\<close> further comparisons.
\<close>

lemma loop_cmps:
  "nat (right - left + 1) < 2 ^ k \<Longrightarrow>
   comparisons (binarySearch_loop arr target left right cmps) \<le> cmps + k"
proof (induction arr target left right cmps arbitrary: k rule: binarySearch_loop.induct)
  case (1 arr target left right cmps)
  show ?case
  proof (cases "left \<le> right")
    case False
    then show ?thesis by (simp add: binarySearch_loop.simps)
  next
    case True
    define mid where "mid = (left + right) div 2"
    from True "1.prems" obtain k' where k: "k = Suc k'"
      by (cases k) auto
    have sz1: "nat (right - (mid + 1) + 1) < 2 ^ k'"
      using True "1.prems" unfolding k mid_def by (simp add: nat_less_iff) 
    have sz2: "nat ((mid - 1) - left + 1) < 2 ^ k'"
      using True "1.prems" unfolding k mid_def by (simp add: nat_less_iff)
    show ?thesis
    proof (cases "arr_get arr mid = Some target")
      case eq: True
      then show ?thesis using True
        by (subst binarySearch_loop.simps) (simp add: mid_def Let_def k)
    next
      case neq: False
      show ?thesis
      proof (cases "case arr_get arr mid of Some v \<Rightarrow> v < target | None \<Rightarrow> False")
        case lt: True
        have "comparisons (binarySearch_loop arr target (mid + 1) right (cmps + 1)) \<le> (cmps + 1) + k'"
          using "1.IH"(1)[OF True refl mid_def neq lt sz1] by simp
        then show ?thesis using True neq lt
          by (subst binarySearch_loop.simps) (simp add: mid_def[symmetric] Let_def k)
      next
        case ge: False
        have "comparisons (binarySearch_loop arr target left (mid - 1) (cmps + 1)) \<le> (cmps + 1) + k'"
          using "1.IH"(2)[OF True refl mid_def neq ge sz2] by simp
        then show ?thesis using True neq ge
          by (subst binarySearch_loop.simps) (simp add: mid_def[symmetric] Let_def k)
      qed
    qed
  qed
qed

lemma loop_found:
  "sorted arr \<Longrightarrow> 0 \<le> left \<Longrightarrow> right < int (length arr) \<Longrightarrow>
   \<exists>i. left \<le> i \<and> i \<le> right \<and> arr ! nat i = target \<Longrightarrow>
   found (binarySearch_loop arr target left right cmps) \<and>
   arr_get arr (index (binarySearch_loop arr target left right cmps)) = Some target"
proof (induction arr target left right cmps rule: binarySearch_loop.induct)
  case (1 arr target left right cmps)
  from "1.prems"(4) obtain i where i: "left \<le> i" "i \<le> right" "arr ! nat i = target"
    by blast
  then have lr: "left \<le> right" by simp
  define mid where "mid = (left + right) div 2"
  have mid: "left \<le> mid" "mid \<le> right" using lr unfolding mid_def by simp_all
  then have get: "arr_get arr mid = Some (arr ! nat mid)"
    using "1.prems"(2,3) by (simp add: arr_get_def)
  show ?case
  proof (cases "arr ! nat mid = target")
    case True
    then show ?thesis using lr get
      by (subst (1 2) binarySearch_loop.simps) (simp add: mid_def[symmetric] Let_def)
  next
    case neq: False
    then have neq': "arr_get arr mid \<noteq> Some target" using get by simp
    show ?thesis
    proof (cases "arr ! nat mid < target")
      case lt: True
      then have lt': "case arr_get arr mid of Some v \<Rightarrow> v < target | None \<Rightarrow> False"
        using get by simp
      have "mid < i"
      proof (rule ccontr)
        assume "\<not> mid < i"
        then have "nat i \<le> nat mid" by simp
        moreover have "nat mid < length arr" using mid "1.prems"(2,3) by simp
        ultimately have "arr ! nat i \<le> arr ! nat mid"
          using "1.prems"(1) by (simp add: sorted_iff_nth_mono)
        then show False using lt i(3) by simp
      qed
      then have ex: "\<exists>i. mid + 1 \<le> i \<and> i \<le> right \<and> arr ! nat i = target"
        using i by (intro exI[of _ i]) simp
      have "0 \<le> mid + 1" using mid "1.prems"(2) by simp
      from "1.IH"(1)[OF lr refl mid_def neq' lt' "1.prems"(1) this "1.prems"(3) ex]
      show ?thesis using lr neq' lt'
        by (subst (1 2) binarySearch_loop.simps) (simp add: mid_def[symmetric] Let_def)
    next
      case ge: False
      then have ge': "\<not> (case arr_get arr mid of Some v \<Rightarrow> v < target | None \<Rightarrow> False)"
        using get by simp
      have "i < mid"
      proof (rule ccontr)
        assume "\<not> i < mid"
        then have "nat mid \<le> nat i" by simp
        moreover have "nat i < length arr" using i lr "1.prems"(2,3) by simp
        ultimately have "arr ! nat mid \<le> arr ! nat i"
          using "1.prems"(1) by (simp add: sorted_iff_nth_mono)
        then show False using ge neq i(3) by simp
      qed
      then have ex: "\<exists>i. left \<le> i \<and> i \<le> mid - 1 \<and> arr ! nat i = target"
        using i by (intro exI[of _ i]) simp
      have "mid - 1 < int (length arr)" using mid "1.prems"(3) by simp
      from "1.IH"(2)[OF lr refl mid_def neq' ge' "1.prems"(1,2) this ex]
      show ?thesis using lr neq' ge'
        by (subst (1 2) binarySearch_loop.simps) (simp add: mid_def[symmetric] Let_def)
    qed
  qed
qed

text \<open>
  Claim C9. For a sorted array of length \<open>n\<close> and any target, the \<open>comparisons\<close> field
  of \<open>binarySearch\<close> is at most \<open>\<lceil>log\<^sub>2 n\<rceil> + 1\<close> (for the empty array, where the
  logarithm is undefined, \<open>ceillog2 0 = 0\<close> and no comparison is made); and when the
  target occurs in the array, the result has \<open>found = True\<close> and an \<open>index\<close> inside the
  array at which the element equals the target.
\<close>

theorem binarySearch_spec:
  fixes arr :: "'a::linorder list"
  assumes "sorted arr"
  shows "comparisons (binarySearch arr target) \<le> ceillog2 (length arr) + 1 \<and>
         (0 < length arr \<longrightarrow>
           int (comparisons (binarySearch arr target)) \<le> \<lceil>log 2 (real (length arr))\<rceil> + 1) \<and>
         (target \<in> set arr \<longrightarrow>
           found (binarySearch arr target) \<and>
           0 \<le> index (binarySearch arr target) \<and>
           index (binarySearch arr target) < int (length arr) \<and>
           arr ! nat (index (binarySearch arr target)) = target)"
proof -
  have "(2::nat) ^ ceillog2 (length arr) < 2 ^ (ceillog2 (length arr) + 1)"
    by simp
  then have "length arr < 2 ^ (ceillog2 (length arr) + 1)"
    using le_two_power_ceillog2[of "length arr"] by (rule order.strict_trans1[rotated])
  then have "nat (int (length arr) - 1 - 0 + 1) < 2 ^ (ceillog2 (length arr) + 1)"
    by simp
  from loop_cmps[OF this, of arr target 0]
  have c: "comparisons (binarySearch arr target) \<le> ceillog2 (length arr) + 1"
    by (simp add: binarySearch_def)
  have l: "int (comparisons (binarySearch arr target)) \<le> \<lceil>log 2 (real (length arr))\<rceil> + 1"
    if pos: "0 < length arr"
  proof -
    have "0 \<le> log 2 (real (length arr))" using pos by (simp add: Suc_le_eq)
    then have "0 \<le> \<lceil>log 2 (real (length arr))\<rceil>"
      using le_of_int_ceiling[of "log 2 (real (length arr))"] by linarith
    then have "int (nat \<lceil>log 2 (real (length arr))\<rceil>) = \<lceil>log 2 (real (length arr))\<rceil>"
      by (rule nat_0_le)
    moreover have "ceillog2 (length arr) = nat \<lceil>log 2 (real (length arr))\<rceil>"
      using pos unfolding ceillog2_def by simp
    ultimately have "int (ceillog2 (length arr)) = \<lceil>log 2 (real (length arr))\<rceil>"
      by (simp only:)
    then show ?thesis
      using c by linarith
  qed
  have f: "found (binarySearch arr target) \<and>
           0 \<le> index (binarySearch arr target) \<and>
           index (binarySearch arr target) < int (length arr) \<and>
           arr ! nat (index (binarySearch arr target)) = target"
    if mem: "target \<in> set arr"
  proof -
    obtain j where j: "j < length arr" "arr ! j = target"
      using mem by (auto simp: in_set_conv_nth)
    then have ex: "\<exists>i. 0 \<le> i \<and> i \<le> int (length arr) - 1 \<and> arr ! nat i = target"
      by (intro exI[of _ "int j"]) simp
    have "found (binarySearch_loop arr target 0 (int (length arr) - 1) 0) \<and>
        arr_get arr (index (binarySearch_loop arr target 0 (int (length arr) - 1) 0)) = Some target"
      by (rule loop_found[OF assms _ _ ex]) simp_all
    then show ?thesis
      by (auto simp: binarySearch_def arr_get_def split: if_splits)
  qed
  show ?thesis using c l f by blast
qed

theorem binarySearch_spec_witness:
  "sorted [1, 3, 5, 7 :: int] \<and> 0 < length [1, 3, 5, 7 :: int] \<and> (5::int) \<in> set [1, 3, 5, 7] \<and>
   binarySearch [1, 3, 5, 7 :: int] 5 = \<lparr>found = True, index = 2, comparisons = 2\<rparr> \<and>
   comparisons (binarySearch [1, 3, 5, 7 :: int] 5) \<le> ceillog2 (length [1, 3, 5, 7 :: int]) + 1"
proof -
  have s: "sorted [1, 3, 5, 7 :: int]" by simp
  have v: "binarySearch [1, 3, 5, 7 :: int] 5 = \<lparr>found = True, index = 2, comparisons = 2\<rparr>"
    by (simp add: binarySearch_def binarySearch_loop.simps arr_get_def Let_def)
  show ?thesis using s v binarySearch_spec[OF s, of 5] by simp
qed

subsection \<open>Count-min sketch: the query never underestimates\<close>

lemma hash_fold_less:
  "seed < cms_width \<Longrightarrow> fold (\<lambda>c h. (h * 31 + c) mod cms_width) cs seed < cms_width"
  by (induction cs arbitrary: seed) (simp_all add: cms_width_def)

lemma hashSeeds_nth: "i < cms_depth \<Longrightarrow> hashSeeds ! i = i * 31"
  by (simp add: hashSeeds_def)

lemma hash_less: "i < cms_depth \<Longrightarrow> hash toString item (hashSeeds ! i) < cms_width"
  unfolding hash_def
  by (rule hash_fold_less) (simp add: hashSeeds_nth, simp add: cms_width_def cms_depth_def)

lemma fold_rows_length:
  "length (fold (\<lambda>i s. s[i := f i (s ! i)]) [0..<n] sk) = length sk"
  by (induction n) simp_all

lemma fold_rows_nth:
  "n \<le> length sk \<Longrightarrow> i < length sk \<Longrightarrow>
   fold (\<lambda>i s. s[i := f i (s ! i)]) [0..<n] sk ! i = (if i < n then f i (sk ! i) else sk ! i)"
proof (induction n)
  case 0
  then show ?case by simp
next
  case (Suc n)
  then show ?case
    by (auto simp: nth_list_update fold_rows_length)
qed

lemma add_item_rows:
  "add_item toString sk item = fold (\<lambda>i s. s[i := bump_row toString item i (s ! i)]) [0..<cms_depth] sk"
  by (simp add: add_item_def bump_row_def Let_def)

lemma shaped_row: "shaped sk \<Longrightarrow> i < cms_depth \<Longrightarrow> length (sk ! i) = cms_width"
  by (simp add: shaped_def list_all_length)

lemma add_item_length: "length (add_item toString sk item) = length sk"
  by (simp add: add_item_rows fold_rows_length)

lemma add_item_nth:
  "shaped sk \<Longrightarrow> i < cms_depth \<Longrightarrow>
   add_item toString sk item ! i = bump_row toString item i (sk ! i)"
  by (simp add: add_item_rows fold_rows_nth shaped_def)

lemma add_item_shaped:
  assumes "shaped sk"
  shows "shaped (add_item toString sk item)"
proof -
  have "length (add_item toString sk item ! i) = cms_width" if "i < cms_depth" for i
    using add_item_nth[OF assms that, of toString item] shaped_row[OF assms that]
    by (simp add: bump_row_def)
  then show ?thesis
    using assms by (simp add: shaped_def list_all_length add_item_length)
qed

lemma add_item_counter:
  assumes "shaped sk" "i < cms_depth" "j < cms_width"
  shows "add_item toString sk item ! i ! j =
         sk ! i ! j + (if hash toString item (hashSeeds ! i) = j then 1 else 0)"
  using assms shaped_row[OF assms(1,2)]
  by (simp add: add_item_nth bump_row_def nth_list_update)

text \<open>
  After the items of \<open>data\<close> have been added, the counter at row \<open>i\<close>, column \<open>j\<close> is the
  number of items whose hash under the seed of row \<open>i\<close> is \<open>j\<close>.
\<close>

lemma counters_count:
  "shaped (fold (\<lambda>item sk. add_item toString sk item) data
             (replicate cms_depth (replicate cms_width 0))) \<and>
   (\<forall>i<cms_depth. \<forall>j<cms_width.
      fold (\<lambda>item sk. add_item toString sk item) data
           (replicate cms_depth (replicate cms_width 0)) ! i ! j =
      length (filter (\<lambda>x. hash toString x (hashSeeds ! i) = j) data))"
proof (induction data rule: rev_induct)
  case Nil
  show ?case by (simp add: shaped_def list_all_length)
next
  case (snoc x xs)
  then show ?case
    by (simp add: add_item_shaped add_item_counter)
qed

lemma fold_min_ge:
  "(\<And>i. i < n \<Longrightarrow> c \<le> g i) \<Longrightarrow> c \<le> fold (\<lambda>i m. min m (g i)) [0..<n] (\<infinity>::enat)"
  by (induction n) simp_all

lemma count_list_filter: "count_list xs y = length (filter (\<lambda>x. x = y) xs)"
  by (induction xs) simp_all

text \<open>
  Claim C10. For every data list and every item, the value \<open>query\<close> returns for the
  item (the minimum over the seven rows of the counters the item hashes to) is at least
  the number of occurrences of the item in the data.
\<close>

theorem countMinSketch_never_underestimates:
  "enat (count_list data item) \<le> query toString (countMinSketch toString data) item"
proof -
  have "enat (count_list data item)
        \<le> enat (counters (countMinSketch toString data) ! i ! hash toString item (hashSeeds ! i))"
    if i: "i < cms_depth" for i
  proof -
    have "length (filter (\<lambda>x. x = item) data)
          \<le> length (filter (\<lambda>x. hash toString x (hashSeeds ! i) = hash toString item (hashSeeds ! i)) data)"
      by (induction data) simp_all
    then show ?thesis
      using counters_count[of toString data] i hash_less[OF i, of toString item]
      by (simp add: countMinSketch_def count_list_filter)
  qed
  then show ?thesis
    unfolding query_def by (rule fold_min_ge)
qed

subsection \<open>Insertion-ordered maps\<close>

lemma map_of_map_set: "map_of (map_set m k v) = (map_of m)(k \<mapsto> v)"
  by (induction m) (auto simp: fun_eq_iff)

lemma keys_map_set:
  "map fst (map_set m k v) = (if k \<in> fst ` set m then map fst m else map fst m @ [k])"
  by (induction m) force+

subsection \<open>Consensus: the counting loop\<close>


lemma set_firsts [simp]: "set (firsts xs) = set xs"
  by (simp add: firsts_def)

lemma distinct_firsts [simp]: "distinct (firsts xs)"
  by (simp add: firsts_def)

lemma count_list_snoc: "count_list (xs @ [x]) y = count_list xs y + (if x = y then 1 else 0)"
  by simp





subsection \<open>Consensus: the maximum loop\<close>






subsection \<open>Consensus: plurality with first-occurrence tie-break\<close>



subsection \<open>Dispatch: a failing agent does not fail the dispatch\<close>








subsection \<open>Ring topology\<close>

lemma ring_prev: "i < n \<Longrightarrow> (int i - 1 + int n) mod int n = (int i - 1) mod int n"
  by simp

lemma ring_prev_less: "i < n \<Longrightarrow> nat ((int i - 1) mod int n) < n"
  by (simp add: nat_less_iff)

text \<open>
  Claim C7. In a ring swarm with a roster of \<open>n\<close> agents, after
  \<open>updateTopologyConnections\<close> the roster has the same agents in the same order, and the
  connections of the agent at index \<open>i\<close> are the identifiers of the agents at the indices
  \<open>(i - 1) mod n\<close> and \<open>(i + 1) mod n\<close>, and nothing else. This holds for every
  \<open>n \<ge> 1\<close>, hence also for \<open>n = 1\<close> and \<open>n = 2\<close>, where the two indices are the same.
\<close>

theorem ring_connections_exact:
  assumes "s_topology sw = ''ring''" and "i < length (s_agents sw)"
  shows "length (s_agents (updateTopologyConnections sw)) = length (s_agents sw) \<and>
         a_id (s_agents (updateTopologyConnections sw) ! i) = a_id (s_agents sw ! i) \<and>
         a_connections (s_agents (updateTopologyConnections sw) ! i) =
           [a_id (s_agents sw ! nat ((int i - 1) mod int (length (s_agents sw)))),
            a_id (s_agents sw ! ((i + 1) mod length (s_agents sw)))] \<and>
         set (a_connections (s_agents (updateTopologyConnections sw) ! i)) =
           {a_id (s_agents (updateTopologyConnections sw) ! nat ((int i - 1) mod int (length (s_agents sw)))),
            a_id (s_agents (updateTopologyConnections sw) ! ((i + 1) mod length (s_agents sw)))}"
proof -
  let ?n = "length (s_agents sw)"
  have upd: "s_agents (updateTopologyConnections sw) =
             map (\<lambda>i. (s_agents sw ! i)\<lparr>a_connections := ring_connections (s_agents sw) i\<rparr>) [0..<?n]"
    using assms(1) by (simp add: updateTopologyConnections_def Let_def)
  have p: "nat ((int i - 1) mod int ?n) < ?n"
    using assms(2) by (rule ring_prev_less)
  have "0 < ?n"
    using assms(2) by linarith
  then have s: "(i + 1) mod ?n < ?n"
    by (rule mod_less_divisor)
  have c: "ring_connections (s_agents sw) i =
           [a_id (s_agents sw ! nat ((int i - 1) mod int ?n)), a_id (s_agents sw ! ((i + 1) mod ?n))]"
    using assms(2) by (simp add: ring_connections_def Let_def)
  show ?thesis
    unfolding upd using assms(2) p s c by simp
qed

theorem ring_connections_exact_witness:
  "s_topology (sample_swarm ''ring'' [createSwarmAgent ''s'' (plain_role ''solo'') ''r0'']) = ''ring'' \<and>
   0 < length (s_agents (sample_swarm ''ring'' [createSwarmAgent ''s'' (plain_role ''solo'') ''r0''])) \<and>
   a_connections (s_agents (updateTopologyConnections
      (sample_swarm ''ring'' [createSwarmAgent ''s'' (plain_role ''solo'') ''r0''])) ! 0) =
     [''s-agent-r0'', ''s-agent-r0'']"
proof -
  let ?sw = "sample_swarm ''ring'' [createSwarmAgent ''s'' (plain_role ''solo'') ''r0'']"
  have t: "s_topology ?sw = ''ring''"
    by (simp add: sample_swarm_def)
  have l: "0 < length (s_agents ?sw)"
    by (simp add: sample_swarm_def)
  show ?thesis
    using t l ring_connections_exact[OF t l]
    by (simp add: sample_swarm_def createSwarmAgent_def)
qed

subsection \<open>Connections after swarm creation\<close>

lemma add_roles_connections:
  "list_all (\<lambda>a. a_connections a = []) (s_agents sw) \<Longrightarrow>
   list_all (\<lambda>a. a_connections a = []) (s_agents (add_roles e k roles sw))"
  by (induction roles arbitrary: k sw) (simp_all add: Let_def createSwarmAgent_def)

lemma add_roles_length: "length (s_agents (add_roles e k roles sw)) = length (s_agents sw) + length roles"
  by (induction roles arbitrary: k sw) (simp_all add: Let_def)

lemma add_roles_topology: "s_topology (add_roles e k roles sw) = s_topology sw"
  by (induction roles arbitrary: k sw) (simp_all add: Let_def)

text \<open>
  \<open>createSwarm\<close> builds the roster but never calls \<open>updateTopologyConnections\<close>: whatever
  the topology and the roles, every agent of the swarm it returns has the empty
  connection list that \<open>createSwarmAgent\<close> gave it.
\<close>

lemma createSwarm_connections_empty:
  assumes "createSwarm e mgr spec = Inr (sw, mgr')"
  shows "list_all (\<lambda>a. a_connections a = []) (s_agents sw)"
proof -
  define sw0 where "sw0 = \<lparr>s_id = or_str (sp_id spec) (e_fresh e),
                    s_name = or_str (sp_name spec) (or_str (sp_id spec) (e_fresh e)),
                    s_topology = or_str (sp_topology spec) (cfg_defaultTopology mgr),
                    s_consensusProtocol = or_str (sp_consensusProtocol spec) (cfg_consensusProtocol mgr),
                    s_agents = [],
                    s_coordinator = None,
                    s_state = ''idle'',
                    s_maxAgents = or_nat (sp_maxAgents spec) (cfg_maxAgents mgr),
                    s_consensusThreshold = or_rat (sp_consensusThreshold spec) (cfg_consensusThreshold mgr),
                    s_faultTolerance = or_str (sp_faultTolerance spec) ''byzantine'',
                    s_tasksCompleted = 0,
                    s_consensusReached = 0,
                    s_averageResponseTime = 0,
                    s_messagesExchanged = 0,
                    s_createdAt = e_now e,
                    s_flowSwarmId = None\<rparr>"
  define sw1 where "sw1 = (case sp_roles spec of None \<Rightarrow> sw0 | Some roles \<Rightarrow> add_roles e 0 roles sw0)"
  have "list_all (\<lambda>a. a_connections a = []) (s_agents sw0)"
    by (simp add: sw0_def)
  then have e1: "list_all (\<lambda>a. a_connections a = []) (s_agents sw1)"
    unfolding sw1_def by (cases "sp_roles spec") (simp_all add: add_roles_connections)
  have "s_agents sw = s_agents sw1"
    using assms unfolding createSwarm_def Let_def sw1_def sw0_def
    by (auto split: option.splits sum.splits)
  then show ?thesis using e1 by simp
qed

text \<open>
  \<open>addAgent\<close>, in contrast, recomputes the connections of the whole roster: the swarm it
  registers is \<open>updateTopologyConnections\<close> of the roster with the new agent.
\<close>

lemma addAgent_recomputes:
  assumes "map_of (swarms mgr) swarmId = Some sw" and "length (s_agents sw) < s_maxAgents sw"
  shows "map_of (swarms (snd (projr (addAgent e mgr swarmId agentSpec)))) swarmId =
         Some (updateTopologyConnections
                 (sw\<lparr>s_agents := s_agents sw @ [createSwarmAgent swarmId agentSpec (e_random e 0)]\<rparr>))"
  using assms by (simp add: addAgent_def Let_def map_of_map_set)

text \<open>
  Claim C6, at the input of the repository's own test \<^verbatim>\<open>should create a mesh swarm\<close>: a
  mesh swarm created with three roles. The swarm \<open>createSwarm\<close> returns has three agents
  whose connections are all empty, whereas the mesh rule (what \<open>updateTopologyConnections\<close>
  computes on that same roster, and what \<open>addAgent\<close> would install) connects each agent
  to the two others.
\<close>

theorem createSwarm_mesh_connections_stale:
  "(case createSwarm sample_env sample_manager
           (sample_spec ''mesh'' [''agent1'', ''agent2'', ''agent3'']) of
      Inl err \<Rightarrow> False
    | Inr (sw, mgr') \<Rightarrow>
        map a_connections (s_agents sw) = [[], [], []] \<and>
        map a_connections (s_agents (updateTopologyConnections sw)) =
          [[''s-agent-r1'', ''s-agent-r2''],
           [''s-agent-r0'', ''s-agent-r2''],
           [''s-agent-r0'', ''s-agent-r1'']])"
  by (simp add: createSwarm_def sample_env_def sample_manager_def sample_spec_def plain_role_def
      createSwarmAgent_def or_str_def or_nat_def or_rat_def Let_def
      updateTopologyConnections_def others_of_def)

subsection \<open>Node updates\<close>

lemma map_of_update_node:
  "map_of (d_nodes (update_node k f g)) k' =
   (if k' = k then map_option f (map_of (d_nodes g) k) else map_of (d_nodes g) k')"
proof -
  have "map_of (map (\<lambda>(k', n). if k' = k then (k', f n) else (k', n)) xs) k' =
        (if k' = k then map_option f (map_of xs k) else map_of xs k')" for xs
    by (induction xs) auto
  then show ?thesis
    by (simp add: update_node_def)
qed

lemma keys_update_node: "map fst (d_nodes (update_node k f g)) = map fst (d_nodes g)"
  by (auto simp: update_node_def)

lemma update_node_other [simp]:
  "d_edges (update_node k f g) = d_edges g"
  "d_results (update_node k f g) = d_results g"
  "d_state (update_node k f g) = d_state g"
  "d_id (update_node k f g) = d_id g"
  by (simp_all add: update_node_def)

subsection \<open>Execution of a node without handler\<close>



lemma gather_inputs_update_node [simp]:
  "gather_inputs (update_node k f g) deps = gather_inputs g deps"
  by (simp add: gather_inputs_def)





subsection \<open>Graph construction and dangling edges\<close>

lemma add_node_fields [simp]:
  "d_edges (add_node nd g) = d_edges g"
  "d_id (add_node nd g) = d_id g"
  by (simp_all add: add_node_def)

lemma fold_add_node_fields [simp]:
  "d_edges (fold add_node nds g) = d_edges g"
  "d_id (fold add_node nds g) = d_id g"
  by (induction nds arbitrary: g) simp_all

lemma fold_add_node_fresh:
  "(\<And>k nd. map_of (d_nodes g) k = Some nd \<Longrightarrow> n_dependencies nd = [] \<and> n_dependents nd = []) \<Longrightarrow>
   map_of (d_nodes (fold add_node nds g)) k = Some nd \<Longrightarrow>
   n_dependencies nd = [] \<and> n_dependents nd = []"
proof (induction nds arbitrary: g)
  case Nil
  then show ?case by simp
next
  case (Cons x xs)
  have "n_dependencies nd' = [] \<and> n_dependents nd' = []"
    if "map_of (d_nodes (add_node x g)) k' = Some nd'" for k' nd'
    using that Cons.prems(1)[of k' nd']
    by (auto simp: add_node_def map_of_map_set new_node_def split: if_splits)
  from Cons.IH[OF this] Cons.prems(2) show ?case
    by simp
qed

text \<open>
  One edge extends the dependencies of its target and the dependents of its source, and
  only when both are keys of the node map.
\<close>

lemma add_edge_keys: "map fst (d_nodes (add_edge ed g)) = map fst (d_nodes g)"
  by (simp add: add_edge_def Let_def keys_update_node split: option.splits)

lemma add_edge_edges: "d_edges (add_edge ed g) = d_edges g @ [ed]"
  by (simp add: add_edge_def Let_def split: option.splits)

lemma add_edge_id: "d_id (add_edge ed g) = d_id g"
  by (simp add: add_edge_def Let_def split: option.splits)

lemma map_of_keys: "(map_of m k \<noteq> None) = (k \<in> set (map fst m))"
  by (simp add: map_of_eq_None_iff)

lemma add_edge_node:
  assumes "map_of (d_nodes (add_edge ed g)) k = Some nd'"
  shows "\<exists>nd. map_of (d_nodes g) k = Some nd \<and>
           n_dependencies nd' =
             n_dependencies nd @
             (if edge_to ed = k \<and> edge_from ed \<in> set (map fst (d_nodes g)) then [edge_from ed] else []) \<and>
           n_dependents nd' =
             n_dependents nd @
             (if edge_from ed = k \<and> edge_to ed \<in> set (map fst (d_nodes g)) then [edge_to ed] else [])"
proof (cases "map_of (d_nodes g) (edge_from ed)")
  case None
  then have "edge_from ed \<notin> set (map fst (d_nodes g))"
    using map_of_keys[of "d_nodes g" "edge_from ed"] by simp
  moreover have "add_edge ed g = g\<lparr>d_edges := d_edges g @ [ed]\<rparr>"
    using None by (simp add: add_edge_def Let_def)
  ultimately show ?thesis
    using assms None by auto
next
  case f: (Some fromNode)
  then have fk: "edge_from ed \<in> set (map fst (d_nodes g))"
    using map_of_keys[of "d_nodes g" "edge_from ed"] by simp
  show ?thesis
  proof (cases "map_of (d_nodes g) (edge_to ed)")
    case None
    then have "edge_to ed \<notin> set (map fst (d_nodes g))"
      using map_of_keys[of "d_nodes g" "edge_to ed"] by simp
    moreover have "add_edge ed g = g\<lparr>d_edges := d_edges g @ [ed]\<rparr>"
      using None f by (simp add: add_edge_def Let_def)
    ultimately show ?thesis
      using assms None by auto
  next
    case t: (Some toNode)
    then have tk: "edge_to ed \<in> set (map fst (d_nodes g))"
      using map_of_keys[of "d_nodes g" "edge_to ed"] by simp
    have "add_edge ed g =
          update_node (edge_from ed) (\<lambda>n. n\<lparr>n_dependents := n_dependents n @ [edge_to ed]\<rparr>)
            (update_node (edge_to ed) (\<lambda>n. n\<lparr>n_dependencies := n_dependencies n @ [edge_from ed]\<rparr>)
               (g\<lparr>d_edges := d_edges g @ [ed]\<rparr>))"
      using f t by (simp add: add_edge_def Let_def)
    then show ?thesis
      using assms fk tk
      by (auto simp: map_of_update_node split: if_splits)
  qed
qed

lemma fold_add_edge:
  "d_edges (fold add_edge es g) = d_edges g @ es \<and>
   d_id (fold add_edge es g) = d_id g \<and>
   map fst (d_nodes (fold add_edge es g)) = map fst (d_nodes g) \<and>
   (\<forall>k nd'. map_of (d_nodes (fold add_edge es g)) k = Some nd' \<longrightarrow>
      (\<exists>nd. map_of (d_nodes g) k = Some nd \<and>
         n_dependencies nd' =
           n_dependencies nd @
           map edge_from (filter (\<lambda>ed. edge_to ed = k \<and> edge_from ed \<in> set (map fst (d_nodes g))) es) \<and>
         n_dependents nd' =
           n_dependents nd @
           map edge_to (filter (\<lambda>ed. edge_from ed = k \<and> edge_to ed \<in> set (map fst (d_nodes g))) es)))"
proof (induction es rule: rev_induct)
  case Nil
  show ?case by simp
next
  case (snoc ed es)
  let ?g = "fold add_edge es g"
  have keys: "map fst (d_nodes ?g) = map fst (d_nodes g)"
    using snoc by simp
  have node: "\<exists>nd. map_of (d_nodes g) k = Some nd \<and>
         n_dependencies nd' =
           n_dependencies nd @
           map edge_from (filter (\<lambda>ed. edge_to ed = k \<and> edge_from ed \<in> set (map fst (d_nodes g))) (es @ [ed])) \<and>
         n_dependents nd' =
           n_dependents nd @
           map edge_to (filter (\<lambda>ed. edge_from ed = k \<and> edge_to ed \<in> set (map fst (d_nodes g))) (es @ [ed]))"
    if "map_of (d_nodes (add_edge ed ?g)) k = Some nd'" for k nd'
  proof -
    from add_edge_node[OF that] obtain nd1 where
      1: "map_of (d_nodes ?g) k = Some nd1"
      and 2: "n_dependencies nd' = n_dependencies nd1 @
             (if edge_to ed = k \<and> edge_from ed \<in> set (map fst (d_nodes g)) then [edge_from ed] else [])"
      and 3: "n_dependents nd' = n_dependents nd1 @
             (if edge_from ed = k \<and> edge_to ed \<in> set (map fst (d_nodes g)) then [edge_to ed] else [])"
      unfolding keys by blast
    from snoc 1 obtain nd where
      4: "map_of (d_nodes g) k = Some nd"
      and 5: "n_dependencies nd1 = n_dependencies nd @
           map edge_from (filter (\<lambda>ed. edge_to ed = k \<and> edge_from ed \<in> set (map fst (d_nodes g))) es)"
      and 6: "n_dependents nd1 = n_dependents nd @
           map edge_to (filter (\<lambda>ed. edge_from ed = k \<and> edge_to ed \<in> set (map fst (d_nodes g))) es)"
      by blast
    show ?thesis
      using 2 3 4 5 6 by simp
  qed
  show ?case
    using snoc node by (simp add: add_edge_edges add_edge_id add_edge_keys)
qed

text \<open>The node map of a constructed graph has distinct keys, as a \<^verbatim>\<open>Map\<close> has.\<close>

lemma map_set_distinct: "distinct (map fst m) \<Longrightarrow> distinct (map fst (map_set m k v))"
  by (simp add: keys_map_set)

lemma fold_add_node_distinct:
  "distinct (map fst (d_nodes g)) \<Longrightarrow> distinct (map fst (d_nodes (fold add_node nds g)))"
  by (induction nds arbitrary: g) (simp_all add: add_node_def map_set_distinct)

lemma createDAG_distinct_keys: "distinct (node_keys (fst (createDAG e mgr spec)))"
  using fold_add_edge[of "case ds_edges spec of None \<Rightarrow> [] | Some eds \<Rightarrow> eds"]
  by (simp add: createDAG_def Let_def node_keys_def fold_add_node_distinct)

text \<open>
  Claim C2, as the code has it. \<open>createDAG\<close> raises no error, whatever the edges: it
  returns the graph and registers it under its id. The graph's edge list is the edge
  list of the specification, edges with an undeclared endpoint included; and the
  dependencies (dependents) of a node are the sources (targets) of exactly those edges
  into (out of) the node whose two endpoints are both declared nodes, in the order of
  the specification. An edge with an undeclared endpoint thus contributes nothing to
  them.
\<close>

theorem createDAG_keeps_dangling_edges:
  "map_of (dags (snd (createDAG e mgr spec))) (d_id (fst (createDAG e mgr spec))) =
     Some (fst (createDAG e mgr spec)) \<and>
   d_edges (fst (createDAG e mgr spec)) = (case ds_edges spec of None \<Rightarrow> [] | Some eds \<Rightarrow> eds) \<and>
   (\<forall>k nd. map_of (d_nodes (fst (createDAG e mgr spec))) k = Some nd \<longrightarrow>
      n_dependencies nd =
        map edge_from
          (filter (\<lambda>ed. edge_to ed = k \<and>
                        edge_from ed \<in> set (map fst (d_nodes (fst (createDAG e mgr spec)))))
                  (case ds_edges spec of None \<Rightarrow> [] | Some eds \<Rightarrow> eds)) \<and>
      n_dependents nd =
        map edge_to
          (filter (\<lambda>ed. edge_from ed = k \<and>
                        edge_to ed \<in> set (map fst (d_nodes (fst (createDAG e mgr spec)))))
                  (case ds_edges spec of None \<Rightarrow> [] | Some eds \<Rightarrow> eds)))"
proof -
  define dagId where "dagId = or_str (ds_id spec) (e_fresh e)"
  define g0 where "g0 = \<lparr>d_id = dagId, d_name = or_str (ds_name spec) dagId, d_nodes = [],
                d_edges = [], d_state = ''created'', d_results = [], d_createdAt = e_now e\<rparr>"
  define g1 where "g1 = fold add_node (case ds_nodes spec of None \<Rightarrow> [] | Some nds \<Rightarrow> nds) g0"
  define es where "es = (case ds_edges spec of None \<Rightarrow> [] | Some eds \<Rightarrow> eds)"
  define g2 where "g2 = fold add_edge es g1"
  have res: "createDAG e mgr spec = (g2, mgr\<lparr>dags := map_set (dags mgr) dagId g2\<rparr>)"
    by (simp add: createDAG_def Let_def dagId_def g0_def g1_def g2_def es_def)
  have fresh: "n_dependencies nd = [] \<and> n_dependents nd = []"
    if "map_of (d_nodes g1) k = Some nd" for k nd
    using fold_add_node_fresh[of g0 _ k nd] that unfolding g1_def by (simp add: g0_def)
  have f: "d_edges g2 = d_edges g1 @ es \<and> d_id g2 = d_id g1 \<and>
           map fst (d_nodes g2) = map fst (d_nodes g1) \<and>
           (\<forall>k nd'. map_of (d_nodes g2) k = Some nd' \<longrightarrow>
              (\<exists>nd. map_of (d_nodes g1) k = Some nd \<and>
                 n_dependencies nd' = n_dependencies nd @
                   map edge_from (filter (\<lambda>ed. edge_to ed = k \<and> edge_from ed \<in> set (map fst (d_nodes g1))) es) \<and>
                 n_dependents nd' = n_dependents nd @
                   map edge_to (filter (\<lambda>ed. edge_from ed = k \<and> edge_to ed \<in> set (map fst (d_nodes g1))) es)))"
    unfolding g2_def by (rule fold_add_edge)
  have id: "d_id g2 = dagId"
    using f by (simp add: g1_def g0_def)
  have edges: "d_edges g2 = es"
    using f by (simp add: g1_def g0_def)
  have nodes: "n_dependencies nd' =
                 map edge_from (filter (\<lambda>ed. edge_to ed = k \<and> edge_from ed \<in> set (map fst (d_nodes g2))) es) \<and>
               n_dependents nd' =
                 map edge_to (filter (\<lambda>ed. edge_from ed = k \<and> edge_to ed \<in> set (map fst (d_nodes g2))) es)"
    if "map_of (d_nodes g2) k = Some nd'" for k nd'
  proof -
    from f that obtain nd where "map_of (d_nodes g1) k = Some nd"
      and "n_dependencies nd' = n_dependencies nd @
                   map edge_from (filter (\<lambda>ed. edge_to ed = k \<and> edge_from ed \<in> set (map fst (d_nodes g1))) es)"
      and "n_dependents nd' = n_dependents nd @
                   map edge_to (filter (\<lambda>ed. edge_from ed = k \<and> edge_to ed \<in> set (map fst (d_nodes g1))) es)"
      by blast
    moreover have "map fst (d_nodes g2) = map fst (d_nodes g1)"
      using f by simp
    ultimately show ?thesis
      using fresh by simp
  qed
  show ?thesis
    unfolding res fst_conv snd_conv es_def[symmetric]
    using id edges nodes by (simp add: map_of_map_set)
qed

theorem createDAG_keeps_dangling_edges_witness:
  "map_of (d_nodes (fst (createDAG sample_env sample_quad
                           (sample_graph [plain_node ''a'', plain_node ''b'']
                                         [(''a'', ''b''), (''a'', ''ghost'')])))) ''a'' =
     Some ((new_node (plain_node ''a''))\<lparr>n_dependents := [''b'']\<rparr>) \<and>
   d_edges (fst (createDAG sample_env sample_quad
                   (sample_graph [plain_node ''a'', plain_node ''b'']
                                 [(''a'', ''b''), (''a'', ''ghost'')]))) =
     [\<lparr>edge_from = ''a'', edge_to = ''b''\<rparr>, \<lparr>edge_from = ''a'', edge_to = ''ghost''\<rparr>]"
proof -
  let ?spec = "sample_graph [plain_node ''a'', plain_node ''b''] [(''a'', ''b''), (''a'', ''ghost'')]"
  have n: "map_of (d_nodes (fst (createDAG sample_env sample_quad ?spec))) ''a'' =
           Some ((new_node (plain_node ''a''))\<lparr>n_dependents := [''b'']\<rparr>)"
    by (simp add: createDAG_def sample_graph_def add_node_def add_edge_def update_node_def
        plain_node_def new_node_def Let_def)
  show ?thesis
    using n createDAG_keeps_dangling_edges[of sample_env sample_quad ?spec]
    by (simp add: sample_graph_def)
qed

text \<open>
  A specification with the single node \<open>a\<close> and an edge from \<open>a\<close> to the undeclared
  \<open>ghost\<close>: the graph is built and registered, the edge is in its edge list, and node
  \<open>a\<close> has no dependent.
\<close>

theorem dangling_edge_counterexample:
  "d_edges (fst (createDAG sample_env sample_quad (sample_graph [plain_node ''a''] [(''a'', ''ghost'')]))) =
     [\<lparr>edge_from = ''a'', edge_to = ''ghost''\<rparr>] \<and>
   map (\<lambda>(k, nd). (k, n_dependencies nd, n_dependents nd))
       (d_nodes (fst (createDAG sample_env sample_quad (sample_graph [plain_node ''a''] [(''a'', ''ghost'')])))) =
     [(''a'', [], [])] \<and>
   map fst (dags (snd (createDAG sample_env sample_quad (sample_graph [plain_node ''a''] [(''a'', ''ghost'')])))) =
     [''g'']"
  by (simp add: createDAG_def sample_graph_def sample_quad_def add_node_def add_edge_def
      plain_node_def new_node_def or_str_def Let_def)

subsection \<open>Sequential execution: fail-fast\<close>








lemma new_node_fields [simp]:
  "n_dependencies (new_node x) = []"
  "n_dependents (new_node x) = []"
  "n_state (new_node x) = ''pending''"
  "n_handler (new_node x) = ns_handler x"
  "n_type (new_node x) = or_str (ns_type x) ''task''"
  by (simp_all add: new_node_def)






subsection \<open>Parallel waves on a graph that cannot be completed\<close>



lemma plan_results [simp]: "plan (g\<lparr>d_results := r\<rparr>) = plan g"
  by (simp add: plan_def)























end
